theory Spec2Isabelle
  imports Complex_Main "HOL-Library.Word"
begin

section \<open>Typed buffers of App.js\<close>

text \<open>
  The buffer code of \<^verbatim>\<open>src/App.js\<close>: \<^verbatim>\<open>fillTypedArraySequence\<close>, \<^verbatim>\<open>mergeTypedArrays\<close>,
  \<^verbatim>\<open>createTextAttributes\<close> and \<^verbatim>\<open>buildMergedText\<close>.  A JavaScript call either returns,
  throws, or runs forever: a result is \<open>Some (Inr v)\<close>, \<open>Some (Inl e)\<close> or \<open>None\<close>.
  Functions that cannot run forever return the sum alone.
\<close>

datatype error =
    RangeError              \<comment> \<open>thrown by \<^verbatim>\<open>TypedArray.prototype.set\<close> when the source does not fit\<close>
  | TypeError               \<comment> \<open>thrown by a property read on \<^verbatim>\<open>undefined\<close>\<close>
  | InvalidArgumentError    \<comment> \<open>named by the specification; no statement of App.js throws it\<close>
  | TypeMismatchError       \<comment> \<open>named by the specification; no statement of App.js throws it\<close>

subsection \<open>The engine's typed-array operations\<close>

text \<open>
  Numbers are the finite ones, as rationals (NaN, the infinities and the sign of zero play
  no part in this code).  A \<^verbatim>\<open>Uint16Array\<close> holds 16-bit words, a \<^verbatim>\<open>Float32Array\<close> holds
  numbers that went through the engine's rounding to single precision, which is a
  parameter (\<open>fround\<close>) wherever a number is stored into one.
\<close>

text \<open>The two constructors that App.js uses.\<close>

datatype typed_array = Uint16Array "16 word list" | Float32Array "rat list"

fun ta_length :: "typed_array \<Rightarrow> nat" where
  "ta_length (Uint16Array ws) = length ws"
| "ta_length (Float32Array xs) = length xs"

text \<open>\<^verbatim>\<open>ToUint16\<close>: drop the fraction (towards zero), then reduce modulo \<open>2 ^ 16\<close>.\<close>

definition ToUint16 :: "rat \<Rightarrow> 16 word" where
  "ToUint16 x = word_of_int (if x < 0 then - \<lfloor>- x\<rfloor> else \<lfloor>x\<rfloor>)"

definition uint16_number :: "16 word \<Rightarrow> rat" where
  "uint16_number w = of_nat (unat w)"

text \<open>What \<^verbatim>\<open>set\<close> stores into an array of either kind, element by element.\<close>

fun as_uint16 :: "typed_array \<Rightarrow> 16 word list" where
  "as_uint16 (Uint16Array ws) = ws"
| "as_uint16 (Float32Array xs) = map ToUint16 xs"

fun as_float32 :: "typed_array \<Rightarrow> rat list" where
  "as_float32 (Uint16Array ws) = map uint16_number ws"
| "as_float32 (Float32Array xs) = xs"

text \<open>
  \<^verbatim>\<open>target.set(source, offset)\<close> on buffers of one element type: a \<^verbatim>\<open>RangeError\<close> when the
  source does not fit at the offset, else the source overwrites that stretch.
\<close>

definition ta_set :: "'a list \<Rightarrow> 'a list \<Rightarrow> nat \<Rightarrow> error + 'a list" where
  "ta_set target source offset =
     (if length source + offset > length target then Inl RangeError
      else Inr (take offset target @ source @ drop (offset + length source) target))"

text \<open>The same across element types: the source's elements are converted on the way.\<close>

fun typed_set :: "typed_array \<Rightarrow> typed_array \<Rightarrow> nat \<Rightarrow> error + typed_array" where
  "typed_set (Uint16Array ws) source offset =
     (case ta_set ws (as_uint16 source) offset of
        Inl e \<Rightarrow> Inl e | Inr ws' \<Rightarrow> Inr (Uint16Array ws'))"
| "typed_set (Float32Array xs) source offset =
     (case ta_set xs (as_float32 source) offset of
        Inl e \<Rightarrow> Inl e | Inr xs' \<Rightarrow> Inr (Float32Array xs'))"

text \<open>
  A relative index argument of \<^verbatim>\<open>copyWithin\<close>: a negative one counts from the end, and
  the result is clamped to \<open>0 .. len\<close>.
\<close>

definition relative_index :: "int \<Rightarrow> nat \<Rightarrow> nat" where
  "relative_index k len =
     (if k < 0 then nat (max (int len + k) 0) else min (nat k) len)"

text \<open>
  \<^verbatim>\<open>a.copyWithin(target, start, end)\<close>: copies \<open>count\<close> elements from \<open>start\<close> to
  \<open>target\<close> as if through a temporary buffer, and nothing when \<open>count\<close> is not positive.
\<close>

definition copyWithin :: "'a list \<Rightarrow> int \<Rightarrow> int \<Rightarrow> int \<Rightarrow> 'a list" where
  "copyWithin a target start end' =
     (let len = length a;
          to = relative_index target len;
          from = relative_index start len;
          final = relative_index end' len;
          count = min (int final - int from) (int len - int to)
      in if count > 0
         then take to a @ take (nat count) (drop from a) @ drop (to + nat count) a
         else a)"

text \<open>
  \<^verbatim>\<open>x << k\<close>: the operand is taken as a 32-bit integer, shifted, and read back as a
  signed 32-bit integer.
\<close>

definition shift_left :: "int \<Rightarrow> int \<Rightarrow> int" where
  "shift_left x k = sint (push_bit (nat (k mod 32)) (word_of_int x :: 32 word))"

subsection \<open>fillTypedArraySequence\<close>

text \<open>
  The \<^verbatim>\<open>while\<close> loop of \<^verbatim>\<open>fillTypedArraySequence\<close>.  \<open>length'\<close> is the constant
  \<^verbatim>\<open>length\<close>; \<open>position\<close> and \<open>sequenceLength\<close> are the two variables.  The loop has no
  bound of its own, so its value is \<open>None\<close> when it runs forever.
\<close>

partial_function (option) fill_loop :: "'a list \<Rightarrow> int \<Rightarrow> int \<Rightarrow> int \<Rightarrow> 'a list option" where
  "fill_loop typedArray length' position sequenceLength =
     (if position < length' then
        let sequenceLength =
              (if position + sequenceLength > length' then length' - position
               else sequenceLength);
            typedArray = copyWithin typedArray position 0 sequenceLength
        in fill_loop typedArray length' (position + sequenceLength)
             (shift_left sequenceLength 1)
      else Some typedArray)"

text \<open>
  Both buffers have one element type, as at the two call sites (both \<^verbatim>\<open>Float32Array\<close>).
\<close>

definition fillTypedArraySequence :: "'a list \<Rightarrow> 'a list \<Rightarrow> (error + 'a list) option" where
  "fillTypedArraySequence typedArray sequence =
     (let length' = int (length typedArray);
          sequenceLength = int (length sequence);
          position = sequenceLength
      in case ta_set typedArray sequence 0 of
           Inl e \<Rightarrow> Some (Inl e)
         | Inr typedArray \<Rightarrow>
             map_option Inr (fill_loop typedArray length' position sequenceLength))"

subsection \<open>mergeTypedArrays\<close>

text \<open>The first loop: the sum of the lengths.\<close>

fun merge_length :: "typed_array list \<Rightarrow> nat \<Rightarrow> nat" where
  "merge_length [] length' = length'"
| "merge_length (t # ts) length' = merge_length ts (length' + ta_length t)"

text \<open>
  \<^verbatim>\<open>new typedArrays[0].constructor(length)\<close>: a zero-filled array made by the constructor
  of the first array.
\<close>

fun new_like :: "typed_array \<Rightarrow> nat \<Rightarrow> typed_array" where
  "new_like (Uint16Array _) n = Uint16Array (replicate n 0)"
| "new_like (Float32Array _) n = Float32Array (replicate n 0)"

text \<open>The second loop: each array is \<^verbatim>\<open>set\<close> at \<open>currentLength\<close>.\<close>

fun merge_copy :: "typed_array list \<Rightarrow> typed_array \<Rightarrow> nat \<Rightarrow> error + typed_array" where
  "merge_copy [] array currentLength = Inr array"
| "merge_copy (t # ts) array currentLength =
     (case typed_set array t currentLength of
        Inl e \<Rightarrow> Inl e
      | Inr array' \<Rightarrow> merge_copy ts array' (currentLength + ta_length t))"

text \<open>
  On an empty list \<^verbatim>\<open>typedArrays[0]\<close> is \<^verbatim>\<open>undefined\<close>, and reading its
  \<^verbatim>\<open>constructor\<close> throws a \<^verbatim>\<open>TypeError\<close>.
\<close>

definition mergeTypedArrays :: "typed_array list \<Rightarrow> error + typed_array" where
  "mergeTypedArrays typedArrays =
     (let length' = merge_length typedArrays 0
      in case typedArrays of
           [] \<Rightarrow> Inl TypeError
         | first # _ \<Rightarrow> merge_copy typedArrays (new_like first length') 0)"

subsection \<open>createTextAttributes\<close>

text \<open>
  What \<^verbatim>\<open>createTextAttributes\<close> and \<^verbatim>\<open>buildMergedText\<close> call outside App.js, as
  parameters: the glyphs of \<^verbatim>\<open>layout-bmfont-text\<close> (for letter spacing 1, aligned left),
  the two functions of \<^verbatim>\<open>FontGeometryGenerator\<close>, the index list of \<^verbatim>\<open>quad-indices\<close>
  (clockwise, for a count of quads), and the engine's rounding of a number to single
  precision.  Positions and uvs are typed arrays: \<^verbatim>\<open>mergeTypedArrays\<close> calls their
  \<^verbatim>\<open>constructor\<close> and \<^verbatim>\<open>set\<close>.
\<close>

record ('font, 'glyph) externals =
  createLayout :: "'font \<Rightarrow> string \<Rightarrow> 'glyph list"
  getPositions :: "'glyph list \<Rightarrow> typed_array"
  getUvs :: "'glyph list \<Rightarrow> nat \<Rightarrow> nat \<Rightarrow> bool \<Rightarrow> typed_array"
  createIndices :: "nat \<Rightarrow> rat list"
  fround :: "rat \<Rightarrow> rat"

record attribute_collection =
  positions :: typed_array
  uvs :: typed_array
  indices :: "16 word list"    \<comment> \<open>always a \<^verbatim>\<open>new Uint16Array\<close>\<close>

definition createTextAttributes ::
  "('font, 'glyph) externals \<Rightarrow> 'font \<Rightarrow> string \<Rightarrow> attribute_collection" where
  "createTextAttributes env font text =
     (let glyphs = createLayout env font text;
          positions = getPositions env glyphs;
          uvs = getUvs env glyphs 512 256 False;
          indices = map ToUint16 (createIndices env (length glyphs))
      in \<lparr>positions = positions, uvs = uvs, indices = indices\<rparr>)"

subsection \<open>buildMergedText\<close>

text \<open>The five lists the loop pushes to, and \<^verbatim>\<open>maxIndex\<close>.\<close>

record merge_state =
  positionsArrays :: "typed_array list"
  uvsArrays :: "typed_array list"
  indicesArrays :: "typed_array list"
  offsetsArrays :: "typed_array list"
  scalesArrays :: "typed_array list"
  maxIndex :: rat

text \<open>The returned object; its fields carry the names of the locals they are built from.\<close>

record merged_attributes =
  mergedPositions :: typed_array
  mergedUvs :: typed_array
  mergedIndices :: typed_array
  mergedOffsets :: typed_array
  mergedScales :: typed_array

text \<open>
  \<^verbatim>\<open>new Float32Array(xs[i])\<close> where \<open>xs\<close> is an array of arrays of numbers: past the end
  \<^verbatim>\<open>xs[i]\<close> is \<^verbatim>\<open>undefined\<close>, and \<^verbatim>\<open>new Float32Array(undefined)\<close> is an empty array.
\<close>

definition float32_of_entry :: "(rat \<Rightarrow> rat) \<Rightarrow> rat list list \<Rightarrow> nat \<Rightarrow> rat list" where
  "float32_of_entry fr xs i = (if i < length xs then map fr (xs ! i) else [])"

text \<open>Sequencing of calls that may throw or run forever.\<close>

definition and_then ::
  "(error + 'a) option \<Rightarrow> ('a \<Rightarrow> (error + 'b) option) \<Rightarrow> (error + 'b) option" where
  "and_then m f = (case m of None \<Rightarrow> None | Some (Inl e) \<Rightarrow> Some (Inl e) | Some (Inr v) \<Rightarrow> f v)"

text \<open>
  The body of the \<^verbatim>\<open>for\<close> loop for instance \<open>i\<close>.  \<^verbatim>\<open>vertexCount\<close> is a quotient of
  numbers, not an integer division; adding \<^verbatim>\<open>maxIndex\<close> to an element of the
  \<^verbatim>\<open>Uint16Array\<close> stores the sum through \<^verbatim>\<open>ToUint16\<close>.
\<close>

definition build_instance ::
  "('font, 'glyph) externals \<Rightarrow> 'font \<Rightarrow> string list \<Rightarrow> rat list list \<Rightarrow> rat list list \<Rightarrow>
   nat \<Rightarrow> merge_state \<Rightarrow> (error + merge_state) option" where
  "build_instance env font textArray offsets scales i st =
     (let attributeCollection = createTextAttributes env font (textArray ! i);
          vertexCount = of_nat (ta_length (positions attributeCollection)) / 2;
          indices' = map (\<lambda>w. ToUint16 (uint16_number w + maxIndex st))
                       (indices attributeCollection);
          maxIndex' = maxIndex st + vertexCount
      in and_then
           (fillTypedArraySequence (replicate (nat \<lfloor>vertexCount * 2\<rfloor>) 0)
              (float32_of_entry (fround env) offsets i))
           (\<lambda>offsetsBuffer.
              and_then
                (fillTypedArraySequence (replicate (nat \<lfloor>vertexCount * 2\<rfloor>) 0)
                   (float32_of_entry (fround env) scales i))
                (\<lambda>scalesBuffer.
                   Some (Inr \<lparr>positionsArrays = positionsArrays st @ [positions attributeCollection],
                              uvsArrays = uvsArrays st @ [uvs attributeCollection],
                              indicesArrays = indicesArrays st @ [Uint16Array indices'],
                              offsetsArrays = offsetsArrays st @ [Float32Array offsetsBuffer],
                              scalesArrays = scalesArrays st @ [Float32Array scalesBuffer],
                              maxIndex = maxIndex'\<rparr>))))"

function build_loop ::
  "('font, 'glyph) externals \<Rightarrow> 'font \<Rightarrow> string list \<Rightarrow> rat list list \<Rightarrow> rat list list \<Rightarrow>
   nat \<Rightarrow> merge_state \<Rightarrow> (error + merge_state) option" where
  "build_loop env font textArray offsets scales i st =
     (if i < length textArray
      then and_then (build_instance env font textArray offsets scales i st)
             (\<lambda>st'. build_loop env font textArray offsets scales (i + 1) st')
      else Some (Inr st))"
  by pat_completeness auto
termination
  by (relation "measure (\<lambda>(env, font, textArray, offsets, scales, i, st). length textArray - i)")
    auto

definition buildMergedText ::
  "('font, 'glyph) externals \<Rightarrow> 'font \<Rightarrow> string list \<Rightarrow> rat list list \<Rightarrow> rat list list \<Rightarrow>
   (error + merged_attributes) option" where
  "buildMergedText env font textArray offsets scales =
     and_then
       (build_loop env font textArray offsets scales 0
          \<lparr>positionsArrays = [], uvsArrays = [], indicesArrays = [], offsetsArrays = [],
           scalesArrays = [], maxIndex = 0\<rparr>)
       (\<lambda>st.
          and_then (Some (mergeTypedArrays (positionsArrays st))) (\<lambda>mergedPositions'.
          and_then (Some (mergeTypedArrays (uvsArrays st))) (\<lambda>mergedUvs'.
          and_then (Some (mergeTypedArrays (indicesArrays st))) (\<lambda>mergedIndices'.
          and_then (Some (mergeTypedArrays (offsetsArrays st))) (\<lambda>mergedOffsets'.
          and_then (Some (mergeTypedArrays (scalesArrays st))) (\<lambda>mergedScales'.
            Some (Inr \<lparr>mergedPositions = mergedPositions', mergedUvs = mergedUvs',
                       mergedIndices = mergedIndices', mergedOffsets = mergedOffsets',
                       mergedScales = mergedScales'\<rparr>)))))))"

subsection \<open>Reference notions of the specification\<close>

text \<open>The truncated repetition: element \<open>j\<close> is \<open>P[j mod P.length]\<close>.\<close>

definition cyclic :: "'a list \<Rightarrow> nat \<Rightarrow> 'a list" where
  "cyclic P L = map (\<lambda>j. P ! (j mod length P)) [0..<L]"

text \<open>
  The naive reference of the specification: the pattern repeated \<open>L / P.length\<close> times
  when the pattern length divides \<open>L\<close>, the truncated repetition otherwise.
\<close>

definition naive_fill :: "'a list \<Rightarrow> nat \<Rightarrow> 'a list" where
  "naive_fill P L =
     (if length P dvd L then concat (replicate (L div length P) P) else cyclic P L)"

text \<open>Two arrays made by the same constructor.\<close>

fun same_type :: "typed_array \<Rightarrow> typed_array \<Rightarrow> bool" where
  "same_type (Uint16Array _) (Uint16Array _) = True"
| "same_type (Float32Array _) (Float32Array _) = True"
| "same_type _ _ = False"

text \<open>The stretch of an array from index \<open>b\<close> up to, not including, index \<open>e\<close>.\<close>

fun subarray :: "typed_array \<Rightarrow> nat \<Rightarrow> nat \<Rightarrow> typed_array" where
  "subarray (Uint16Array ws) b e = Uint16Array (take (e - b) (drop b ws))"
| "subarray (Float32Array xs) b e = Float32Array (take (e - b) (drop b xs))"

text \<open>
  Instance \<open>i\<close> of a merge, its vertex count, the vertex counts of the instances before
  it, and the two fills made for it.
\<close>

definition instance_of ::
  "('font, 'glyph) externals \<Rightarrow> 'font \<Rightarrow> string list \<Rightarrow> nat \<Rightarrow> attribute_collection" where
  "instance_of env font textArray i = createTextAttributes env font (textArray ! i)"

definition vertex_count :: "attribute_collection \<Rightarrow> rat" where
  "vertex_count a = of_nat (ta_length (positions a)) / 2"

definition vertices_before ::
  "('font, 'glyph) externals \<Rightarrow> 'font \<Rightarrow> string list \<Rightarrow> nat \<Rightarrow> rat" where
  "vertices_before env font textArray i =
     sum_list (map (\<lambda>j. vertex_count (instance_of env font textArray j)) [0..<i])"

definition instance_fill ::
  "('font, 'glyph) externals \<Rightarrow> 'font \<Rightarrow> string list \<Rightarrow> rat list list \<Rightarrow> nat \<Rightarrow>
   (error + rat list) option" where
  "instance_fill env font textArray xs i =
     fillTypedArraySequence
       (replicate (ta_length (positions (instance_of env font textArray i))) 0)
       (float32_of_entry (fround env) xs i)"

text \<open>The arrays of a non-empty list end to end, in an array of the first one's type.\<close>

definition concat_typed :: "typed_array list \<Rightarrow> typed_array" where
  "concat_typed ts =
     (case hd ts of
        Uint16Array _ \<Rightarrow> Uint16Array (concat (map as_uint16 ts))
      | Float32Array _ \<Rightarrow> Float32Array (concat (map as_float32 ts)))"

text \<open>
  The local indices of instance \<open>i\<close> after the rewriting step, given the value of
  \<^verbatim>\<open>maxIndex\<close> at that step.
\<close>

definition shifted_indices :: "rat \<Rightarrow> attribute_collection \<Rightarrow> 16 word list" where
  "shifted_indices m a = map (\<lambda>w. ToUint16 (uint16_number w + m)) (indices a)"

text \<open>
  The whole vertices of an instance (pairs of position components), and of the instances
  before instance \<open>i\<close>.
\<close>

definition vertices :: "attribute_collection \<Rightarrow> nat" where
  "vertices a = ta_length (positions a) div 2"

definition whole_vertices_before ::
  "('font, 'glyph) externals \<Rightarrow> 'font \<Rightarrow> string list \<Rightarrow> nat \<Rightarrow> nat" where
  "whole_vertices_before env font textArray i =
     sum_list (map (\<lambda>j. vertices (instance_of env font textArray j)) [0..<i])"

text \<open>
  Externals for examples: every character is a glyph with one vertex (two position
  components, all zero), the index list of \<open>n\<close> glyphs is \<open>0, \<dots>, n - 1\<close>, and the
  numbers of the examples are their own single-precision roundings.
\<close>

definition example_env :: "(unit, char) externals" where
  "example_env =
     \<lparr>createLayout = (\<lambda>font text. text),
      getPositions = (\<lambda>glyphs. Float32Array (replicate (2 * length glyphs) 0)),
      getUvs = (\<lambda>glyphs w h flip. Float32Array (replicate (2 * length glyphs) 0)),
      createIndices = (\<lambda>count. map of_nat [0..<count]),
      fround = (\<lambda>x. x)\<rparr>"

section \<open>The engine's operations\<close>

lemma shift_left_double: "0 \<le> s \<Longrightarrow> s < 2 ^ 30 \<Longrightarrow> shift_left s 1 = 2 * s"
proof -
  assume a: "0 \<le> s" "s < 2 ^ 30"
  have "shift_left s 1 = sint (word_of_int s * 2 :: 32 word)"
    by (simp add: shift_left_def push_bit_eq_mult)
  also have "(word_of_int s * 2 :: 32 word) = word_of_int (s * 2)"
    by simp
  also have "sint (word_of_int (s * 2) :: 32 word) = signed_take_bit 31 (s * 2)"
    by (simp only: sint_sbintrunc') simp
  also have "\<dots> = s * 2"
    using a by (intro signed_take_bit_int_eq_self) auto
  finally show ?thesis by simp
qed

lemma relative_index_le: "relative_index k len \<le> len"
  by (simp add: relative_index_def max_def nat_le_iff)

lemma copyWithin_length [simp]: "length (copyWithin a t s e) = length a"
proof -
  define len where "len = length a"
  define to where "to = relative_index t len"
  define frm where "frm = relative_index s len"
  define final where "final = relative_index e len"
  define count where "count = min (int final - int frm) (int len - int to)"
  have le: "to \<le> len" "final \<le> len"
    by (simp_all add: to_def final_def relative_index_le)
  have eq: "copyWithin a t s e =
     (if count > 0 then take to a @ take (nat count) (drop frm a) @ drop (to + nat count) a else a)"
    by (simp add: copyWithin_def Let_def len_def to_def frm_def final_def count_def)
  show ?thesis
  proof (cases "count > 0")
    case False
    then show ?thesis by (simp add: eq)
  next
    case True
    then have c1: "nat count \<le> len - frm" and c2: "nat count \<le> len - to"
      using le by (simp_all add: count_def)
    have "length (take to a @ take (nat count) (drop frm a) @ drop (to + nat count) a)
        = to + nat count + (len - (to + nat count))"
      using le c1 by (simp add: len_def)
    also have "\<dots> = len" using c2 le by simp
    finally show ?thesis using True by (simp add: eq len_def)
  qed
qed

lemma relative_index_nonneg: "0 \<le> k \<Longrightarrow> relative_index k len = min (nat k) len"
  by (simp add: relative_index_def)

lemma copyWithin_prefix:
  assumes "0 \<le> p" "0 < c" "p + c \<le> int (length a)" "c \<le> p"
  shows "copyWithin a p 0 c = take (nat p) a @ take (nat c) a @ drop (nat p + nat c) a"
proof -
  have 1: "relative_index p (length a) = nat p" using assms by (simp add: relative_index_nonneg)
  have 2: "relative_index 0 (length a) = 0" by (simp add: relative_index_nonneg)
  have 3: "relative_index c (length a) = nat c" using assms by (simp add: relative_index_nonneg)
  have 4: "min (int (nat c) - int 0) (int (length a) - int (nat p)) = c" using assms by simp
  show ?thesis using assms unfolding copyWithin_def Let_def 1 2 3 4 by simp
qed

section \<open>The truncated repetition\<close>

lemma length_cyclic [simp]: "length (cyclic P L) = L"
  by (simp add: cyclic_def)

lemma nth_cyclic [simp]: "j < L \<Longrightarrow> cyclic P L ! j = P ! (j mod length P)"
  by (simp add: cyclic_def)

lemma mod_diff_dvd:
  assumes "n dvd p" "p \<le> i"
  shows "(i - p) mod n = i mod (n::nat)"
proof -
  from assms(1) obtain q where q: "p = n * q" ..
  have "i mod n = ((i - p) + n * q) mod n" using assms(2) q by simp
  also have "\<dots> = (i - p) mod n" by (simp only: mod_mult_self2)
  finally show ?thesis by simp
qed

lemma cyclic_append:
  assumes "length P dvd p" "c \<le> p"
  shows "cyclic P p @ take c (cyclic P p) = cyclic P (p + c)"
proof (rule nth_equalityI)
  show "length (cyclic P p @ take c (cyclic P p)) = length (cyclic P (p + c))"
    using assms by simp
next
  fix i assume "i < length (cyclic P p @ take c (cyclic P p))"
  then have i: "i < p + c" using assms by simp
  show "(cyclic P p @ take c (cyclic P p)) ! i = cyclic P (p + c) ! i"
  proof (cases "i < p")
    case True
    then show ?thesis using i by (simp add: nth_append)
  next
    case False
    then have "i - p < c" "i - p < p" using i assms by simp_all
    then show ?thesis using False i assms by (simp add: nth_append mod_diff_dvd)
  qed
qed

lemma cyclic_Cons: "cyclic P (length P + L) = P @ cyclic P L"
proof (rule nth_equalityI)
  show "length (cyclic P (length P + L)) = length (P @ cyclic P L)" by simp
next
  fix i assume "i < length (cyclic P (length P + L))"
  then have i: "i < length P + L" by simp
  show "cyclic P (length P + L) ! i = (P @ cyclic P L) ! i"
  proof (cases "i < length P")
    case True
    then show ?thesis using i by (simp add: nth_append)
  next
    case False
    then have "i - length P < L" using i by simp
    then show ?thesis using False i by (simp add: nth_append mod_diff_dvd)
  qed
qed

lemma cyclic_self: "cyclic P (length P) = P"
  using cyclic_Cons [of P 0] by (simp add: cyclic_def)

lemma cyclic_replicate: "concat (replicate k P) = cyclic P (k * length P)"
proof (induction k)
  case 0
  then show ?case by (simp add: cyclic_def)
next
  case (Suc k)
  then show ?case by (simp add: cyclic_Cons)
qed

section \<open>The fill loop\<close>

declare fill_loop.simps [code]

lemma fill_loop_done: "\<not> position < length' \<Longrightarrow> fill_loop a length' position s = Some a"
  by (subst fill_loop.simps) simp

lemma fill_loop_step:
  "position < length' \<Longrightarrow>
   s' = (if position + s > length' then length' - position else s) \<Longrightarrow>
   fill_loop a length' position s =
     fill_loop (copyWithin a position 0 s') length' (position + s') (shift_left s' 1)"
  by (subst fill_loop.simps) (simp add: Let_def)

lemma fill_loop_doubling:
  assumes "0 < p" "p \<le> L" "L \<le> 2 ^ 31" "length a = L"
    and "take p a = cyclic P p"
    and "p < L \<Longrightarrow> length P dvd p" and "p < L \<Longrightarrow> s = int p"
  shows "fill_loop a (int L) (int p) s = Some (cyclic P L)"
  using assms
proof (induction "L - p" arbitrary: p a s rule: less_induct)
  case less
  show ?case
  proof (cases "p < L")
    case False
    then have "p = L" using less.prems by simp
    then have "a = cyclic P L" using less.prems by simp
    then show ?thesis using False by (simp add: fill_loop_done)
  next
    case True
    then have s: "s = int p" and dvd: "length P dvd p" by (rule less.prems)+
    define c where "c = min p (L - p)"
    have c: "0 < c" "c \<le> p" "p + c \<le> L" using True less.prems by (simp_all add: c_def)
    have sel: "int c = (if int p + s > int L then int L - int p else s)"
      using True by (auto simp: s c_def min_def)
    define a' where "a' = copyWithin a (int p) 0 (int c)"
    have a': "a' = take p a @ take c a @ drop (p + c) a"
      unfolding a'_def using c less.prems by (subst copyWithin_prefix) simp_all
    have step: "fill_loop a (int L) (int p) s =
        fill_loop a' (int L) (int (p + c)) (shift_left (int c) 1)"
      unfolding a'_def using True sel by (subst fill_loop_step [where s' = "int c"]) simp_all
    have tk: "take c a = take c (cyclic P p)"
      using c less.prems by (metis min.absorb1 take_take)
    have pre: "take (p + c) a' = cyclic P (p + c)"
      using c less.prems dvd by (simp add: a' tk cyclic_append)
    have cp: "c = p" if "p + c < L"
      using that by (auto simp: c_def min_def split: if_splits)
    have "fill_loop a' (int L) (int (p + c)) (shift_left (int c) 1) = Some (cyclic P L)"
    proof (rule less.hyps)
      show "L - (p + c) < L - p" using c True by simp
      show "length P dvd p + c" if "p + c < L"
        using cp [OF that] dvd by simp
      show "0 < p + c" using c by simp
      show "p + c \<le> L" using c by simp
      show "L \<le> 2 ^ 31" by (rule less.prems)
      show "length a' = L" using less.prems by (simp add: a'_def)
      show "take (p + c) a' = cyclic P (p + c)" by (rule pre)
      show "shift_left (int c) 1 = int (p + c)" if "p + c < L"
      proof -
        from that less.prems cp [OF that] have "2 * int p < 2 ^ 31" by simp
        then have "int p < 2 ^ 30" by simp
        then have "shift_left (int p) 1 = 2 * int p"
          by (intro shift_left_double) simp_all
        then show ?thesis unfolding cp [OF that] by simp
      qed
    qed
    then show ?thesis by (simp add: step)
  qed
qed

lemma fillTypedArraySequence_cyclic:
  assumes "P \<noteq> []" "length P \<le> length T" "length T \<le> 2 ^ 31"
  shows "fillTypedArraySequence T P = Some (Inr (cyclic P (length T)))"
proof -
  have st: "ta_set T P 0 = Inr (P @ drop (length P) T)"
    using assms by (simp add: ta_set_def)
  have "fill_loop (P @ drop (length P) T) (int (length T)) (int (length P)) (int (length P))
      = Some (cyclic P (length T))"
    using assms by (intro fill_loop_doubling) (simp_all add: cyclic_self)
  then show ?thesis by (simp add: fillTypedArraySequence_def st)
qed

lemma fill_loop_stuck_aux:
  assumes "fill_loop a len p s = Some y"
  shows "\<not> (0 < len \<and> p = 0 \<and> s = 0)"
proof (rule fill_loop.raw_induct
    [where P = "\<lambda>a len p s y. \<not> (0 < len \<and> p = 0 \<and> s = 0)", OF _ assms])
  fix f :: "'a list \<Rightarrow> int \<Rightarrow> int \<Rightarrow> int \<Rightarrow> 'a list option" and a len p s y
  assume IH: "\<And>a len p s y. f a len p s = Some y \<Longrightarrow> \<not> (0 < len \<and> p = 0 \<and> s = 0)"
    and eq: "(if p < len
      then let sequenceLength = if len < p + s then len - p else s;
               typedArray = copyWithin a p 0 sequenceLength
           in f typedArray len (p + sequenceLength) (shift_left sequenceLength 1)
      else Some a) = Some y"
  show "\<not> (0 < len \<and> p = 0 \<and> s = 0)"
  proof
    assume st: "0 < len \<and> p = 0 \<and> s = 0"
    with eq have "f (copyWithin a 0 0 0) len 0 0 = Some y"
      by (simp add: shift_left_def)
    from IH [OF this] st show False by simp
  qed
qed

lemma fill_loop_stuck: "0 < length' \<Longrightarrow> fill_loop a length' 0 0 = None"
  using fill_loop_stuck_aux [of a length' 0 0] by (cases "fill_loop a length' 0 0") auto

lemma fill_loop_wrapped:
  assumes "2 ^ 31 < length'"
  shows "fill_loop a length' (2 ^ 31) (- (2 ^ 31)) = None"
proof -
  have "fill_loop a length' (2 ^ 31) (- (2 ^ 31)) =
      fill_loop (copyWithin a (2 ^ 31) 0 (- (2 ^ 31))) length' (2 ^ 31 + - (2 ^ 31))
        (shift_left (- (2 ^ 31)) 1)"
    using assms by (intro fill_loop_step) simp_all
  also have "\<dots> = None"
    using assms by (simp add: shift_left_def fill_loop_stuck)
  finally show ?thesis .
qed

lemma fill_loop_overflow:
  assumes "2 ^ 31 < length'" "k + n = 30"
  shows "fill_loop a length' (2 ^ k) (2 ^ k) = None"
  using assms(2)
proof (induction n arbitrary: k a)
  case 0
  then have k: "k = 30" by simp
  have "fill_loop a length' (2 ^ 30) (2 ^ 30) =
      fill_loop (copyWithin a (2 ^ 30) 0 (2 ^ 30)) length' (2 ^ 30 + 2 ^ 30) (shift_left (2 ^ 30) 1)"
    using assms(1) by (intro fill_loop_step) simp_all
  also have "\<dots> = None"
    using fill_loop_wrapped [OF assms(1)] by (simp add: shift_left_def)
  finally show ?case by (simp add: k)
next
  case (Suc n)
  then have k: "k < 30" "Suc k + n = 30" by simp_all
  have lt: "(2::int) ^ k < 2 ^ 30"
    using k(1) power_strict_increasing [of k 30 "2::int"] by simp
  have "(2::int) ^ k + 2 ^ k \<le> 2 ^ 30"
    using k(1) power_increasing [of "Suc k" 30 "2::int"] by simp
  then have le: "(2::int) ^ k + 2 ^ k < length'" using assms(1) by simp
  have pos: "(0::int) < 2 ^ k" by simp
  have p_lt: "(2::int) ^ k < length'" using le pos by linarith
  have sel: "(2::int) ^ k = (if 2 ^ k + 2 ^ k > length' then length' - 2 ^ k else 2 ^ k)"
    using le by simp
  have "fill_loop a length' (2 ^ k) (2 ^ k) =
      fill_loop (copyWithin a (2 ^ k) 0 (2 ^ k)) length' (2 ^ k + 2 ^ k) (shift_left (2 ^ k) 1)"
    by (rule fill_loop_step [OF p_lt sel])
  also have "shift_left (2 ^ k) 1 = 2 * 2 ^ k"
    using lt by (intro shift_left_double) simp_all
  also have "fill_loop (copyWithin a (2 ^ k) 0 (2 ^ k)) length' (2 ^ k + 2 ^ k) (2 * 2 ^ k) = None"
    using Suc.IH [OF k(2)] by simp
  finally show ?case .
qed


section \<open>fillTypedArraySequence\<close>

lemma naive_fill_cyclic: "naive_fill P L = cyclic P L"
proof (cases "length P dvd L")
  case True
  then have "L div length P * length P = L" by simp
  then show ?thesis using True by (simp add: naive_fill_def cyclic_replicate)
next
  case False
  then show ?thesis by (simp add: naive_fill_def)
qed

text \<open>
  Up to a target of \<open>2 ^ 31\<close> elements the doubling fill returns, and what it returns is
  the naive repetition.
\<close>

lemma fillTypedArraySequence_naive:
  assumes "P \<noteq> []" "length P \<le> length T" "length T \<le> 2 ^ 31"
  shows "fillTypedArraySequence T P = Some (Inr (naive_fill P (length T)))"
  using fillTypedArraySequence_cyclic [OF assms] by (simp add: naive_fill_cyclic)

lemma fillTypedArraySequence_oversized:
  "length T < length P \<Longrightarrow> fillTypedArraySequence T P = Some (Inl RangeError)"
  by (simp add: fillTypedArraySequence_def ta_set_def)

lemma fillTypedArraySequence_fits:
  "length P \<le> length T \<Longrightarrow>
   fillTypedArraySequence T P =
     map_option Inr (fill_loop (P @ drop (length P) T) (int (length T)) (int (length P))
       (int (length P)))"
  by (simp add: fillTypedArraySequence_def ta_set_def Let_def)

text \<open>An empty pattern: the loop stays at position 0 unless the target is empty too.\<close>

lemma fillTypedArraySequence_empty_pattern:
  "T \<noteq> [] \<Longrightarrow> fillTypedArraySequence T [] = None"
  by (simp add: fillTypedArraySequence_fits fill_loop_stuck)

lemma fillTypedArraySequence_empty_both:
  "fillTypedArraySequence [] [] = Some (Inr [])"
  by (simp add: fillTypedArraySequence_fits fill_loop_done)

text \<open>
  Past \<open>2 ^ 31\<close> elements, a pattern of length \<open>2 ^ k\<close> doubles up to position
  \<open>2 ^ 31\<close>, where \<^verbatim>\<open>sequenceLength <<= 1\<close> has wrapped to \<open>- 2 ^ 31\<close>; the next
  iteration moves the position back to 0 with a sequence length of 0, and the loop
  stays there.
\<close>

lemma fillTypedArraySequence_wraps:
  assumes "2 ^ 31 < length T" "length P = 2 ^ k" "k \<le> 30"
  shows "fillTypedArraySequence T P = None"
proof -
  have le: "length P \<le> length T"
  proof -
    have "(2::nat) ^ k \<le> 2 ^ 31" using assms(3) by (intro power_increasing) simp_all
    then show ?thesis using assms(1,2) by simp
  qed
  have "fill_loop (P @ drop (length P) T) (int (length T)) (2 ^ k) (2 ^ k) = None"
  proof (rule fill_loop_overflow)
    show "2 ^ 31 < int (length T)" using assms(1) by simp
    show "k + (30 - k) = 30" using assms(3) by simp
  qed
  then show ?thesis using assms(2) by (simp add: fillTypedArraySequence_fits [OF le])
qed

text \<open>
  C10.  The claim: the fill loop terminates for every pattern with
  \<open>1 \<le> pattern.length \<le> target length\<close>.  At a target of \<open>2 ^ 31 + 1\<close> elements and a
  pattern of one element, which meets that precondition, the call does not return: the
  loop runs forever.
\<close>

theorem fill_hangs_past_2_31:
  "fillTypedArraySequence (replicate (2 ^ 31 + 1) (0::rat)) [1] = None"
  by (rule fillTypedArraySequence_wraps [where k = 0]) simp_all

text \<open>
  C1.  The claim: for every pattern with \<open>1 \<le> P.length \<le> L\<close> the fill produces the
  naive repetition.  At \<open>L = 2 ^ 31 + 1\<close> and a pattern of one element the call does not
  produce it (it produces nothing).
\<close>

theorem fill_not_naive_past_2_31:
  "fillTypedArraySequence (replicate (2 ^ 31 + 1) (0::rat)) [7]
     \<noteq> Some (Inr (naive_fill [7] (2 ^ 31 + 1)))"
proof -
  have "fillTypedArraySequence (replicate (2 ^ 31 + 1) (0::rat)) [7] = None"
    by (rule fillTypedArraySequence_wraps [where k = 0]) simp_all
  then show ?thesis by simp
qed

section \<open>mergeTypedArrays\<close>

lemma merge_length_sum: "merge_length ts n = n + sum_list (map ta_length ts)"
  by (induction ts arbitrary: n) simp_all

lemma length_as_uint16 [simp]: "length (as_uint16 t) = ta_length t"
  by (cases t) simp_all

lemma length_as_float32 [simp]: "length (as_float32 t) = ta_length t"
  by (cases t) simp_all

lemma ta_set_fits:
  "length source + offset \<le> length target \<Longrightarrow>
   ta_set target source offset =
     Inr (take offset target @ source @ drop (offset + length source) target)"
  by (simp add: ta_set_def)

lemma merge_copy_Float32Array:
  "n + sum_list (map ta_length ts) \<le> length xs \<Longrightarrow>
   merge_copy ts (Float32Array xs) n =
     Inr (Float32Array (take n xs @ concat (map as_float32 ts)
            @ drop (n + sum_list (map ta_length ts)) xs))"
proof (induction ts arbitrary: xs n)
  case Nil
  then show ?case by simp
next
  case (Cons t ts)
  define xs' where "xs' = take n xs @ as_float32 t @ drop (n + ta_length t) xs"
  have fits: "length (as_float32 t) + n \<le> length xs" using Cons.prems by simp
  have len: "length xs' = length xs" using Cons.prems by (simp add: xs'_def)
  have tk: "take (n + ta_length t) xs' = take n xs @ as_float32 t"
    using Cons.prems by (simp add: xs'_def)
  have dr: "drop (n + ta_length t + sum_list (map ta_length ts)) xs'
      = drop (n + ta_length t + sum_list (map ta_length ts)) xs"
    using Cons.prems by (simp add: xs'_def ac_simps)
  have eq1: "merge_copy (t # ts) (Float32Array xs) n = merge_copy ts (Float32Array xs') (n + ta_length t)"
    by (simp add: ta_set_fits [OF fits] xs'_def add.commute)
  have eq2: "merge_copy ts (Float32Array xs') (n + ta_length t) =
      Inr (Float32Array (take (n + ta_length t) xs' @ concat (map as_float32 ts)
            @ drop (n + ta_length t + sum_list (map ta_length ts)) xs'))"
    using Cons.prems by (intro Cons.IH) (simp add: len)
  show ?case unfolding eq1 eq2 tk dr by (simp add: add.assoc)
qed

lemma merge_copy_Uint16Array:
  "n + sum_list (map ta_length ts) \<le> length ws \<Longrightarrow>
   merge_copy ts (Uint16Array ws) n =
     Inr (Uint16Array (take n ws @ concat (map as_uint16 ts)
            @ drop (n + sum_list (map ta_length ts)) ws))"
proof (induction ts arbitrary: ws n)
  case Nil
  then show ?case by simp
next
  case (Cons t ts)
  define ws' where "ws' = take n ws @ as_uint16 t @ drop (n + ta_length t) ws"
  have fits: "length (as_uint16 t) + n \<le> length ws" using Cons.prems by simp
  have len: "length ws' = length ws" using Cons.prems by (simp add: ws'_def)
  have tk: "take (n + ta_length t) ws' = take n ws @ as_uint16 t"
    using Cons.prems by (simp add: ws'_def)
  have dr: "drop (n + ta_length t + sum_list (map ta_length ts)) ws'
      = drop (n + ta_length t + sum_list (map ta_length ts)) ws"
    using Cons.prems by (simp add: ws'_def ac_simps)
  have eq1: "merge_copy (t # ts) (Uint16Array ws) n = merge_copy ts (Uint16Array ws') (n + ta_length t)"
    by (simp add: ta_set_fits [OF fits] ws'_def add.commute)
  have eq2: "merge_copy ts (Uint16Array ws') (n + ta_length t) =
      Inr (Uint16Array (take (n + ta_length t) ws' @ concat (map as_uint16 ts)
            @ drop (n + ta_length t + sum_list (map ta_length ts)) ws'))"
    using Cons.prems by (intro Cons.IH) (simp add: len)
  show ?case unfolding eq1 eq2 tk dr by (simp add: add.assoc)
qed

lemma mergeTypedArrays_Cons:
  "mergeTypedArrays (t # ts) =
     Inr (case t of
            Uint16Array _ \<Rightarrow> Uint16Array (concat (map as_uint16 (t # ts)))
          | Float32Array _ \<Rightarrow> Float32Array (concat (map as_float32 (t # ts))))"
proof (cases t)
  case (Uint16Array ws)
  show ?thesis
    unfolding mergeTypedArrays_def Let_def
    by (simp add: Uint16Array merge_length_sum merge_copy_Uint16Array del: merge_copy.simps)
next
  case (Float32Array xs)
  show ?thesis
    unfolding mergeTypedArrays_def Let_def
    by (simp add: Float32Array merge_length_sum merge_copy_Float32Array del: merge_copy.simps)
qed

lemma mergeTypedArrays_Nil: "mergeTypedArrays [] = Inl TypeError"
  by (simp add: mergeTypedArrays_def)

lemma concat_slice:
  "i < length xss \<Longrightarrow>
   take (length (xss ! i)) (drop (sum_list (map length (take i xss))) (concat xss)) = xss ! i"
proof (induction xss arbitrary: i)
  case Nil
  then show ?case by simp
next
  case (Cons xs xss)
  show ?case
  proof (cases i)
    case 0
    then show ?thesis by simp
  next
    case (Suc j)
    then show ?thesis using Cons by simp
  qed
qed

lemma sum_list_take_Suc:
  "i < length xs \<Longrightarrow>
   sum_list (map f (take (Suc i) xs)) = sum_list (map f (take i xs)) + (f (xs ! i) :: nat)"
  by (simp add: take_Suc_conv_app_nth)

lemma mergeTypedArrays_Float32Arrays:
  "xss \<noteq> [] \<Longrightarrow> mergeTypedArrays (map Float32Array xss) = Inr (Float32Array (concat xss))"
proof (cases xss)
  case Nil
  then show "xss \<noteq> [] \<Longrightarrow> ?thesis" by simp
next
  case (Cons xs xss')
  have "map (as_float32 \<circ> Float32Array) xss' = xss'" by (induction xss') simp_all
  then show ?thesis by (simp add: Cons mergeTypedArrays_Cons)
qed

lemma mergeTypedArrays_Uint16Arrays:
  "wss \<noteq> [] \<Longrightarrow> mergeTypedArrays (map Uint16Array wss) = Inr (Uint16Array (concat wss))"
proof (cases wss)
  case Nil
  then show "wss \<noteq> [] \<Longrightarrow> ?thesis" by simp
next
  case (Cons ws wss')
  have "map (as_uint16 \<circ> Uint16Array) wss' = wss'" by (induction wss') simp_all
  then show ?thesis by (simp add: Cons mergeTypedArrays_Cons)
qed

lemma floor_rat_numeral [simp]:
  "\<lfloor>numeral a / numeral b :: rat\<rfloor> = numeral a div numeral b"
  using floor_divide_of_int_eq [of "numeral a" "numeral b", where ?'a = rat] by simp

lemma ToUint16_of_nat: "ToUint16 (of_nat n) = of_nat n"
  by (simp add: ToUint16_def)

lemma ToUint16_shift: "ToUint16 (uint16_number w + of_nat m) = w + of_nat m"
proof -
  have "uint16_number w + of_nat m = (of_nat (unat w + m) :: rat)"
    by (simp add: uint16_number_def)
  then have "ToUint16 (uint16_number w + of_nat m) = of_nat (unat w + m)"
    by (simp only: ToUint16_of_nat)
  then show ?thesis by simp
qed

lemma subarray_Float32Array_concat:
  assumes "\<forall>t\<in>set ts. same_type (Float32Array xs) t" "i < length ts"
  shows "subarray (Float32Array (concat (map as_float32 ts)))
           (sum_list (map ta_length (take i ts))) (sum_list (map ta_length (take (Suc i) ts)))
         = ts ! i"
proof -
  let ?xss = "map as_float32 ts"
  have a: "sum_list (map ta_length (take i ts)) = sum_list (map length (take i ?xss))"
    by (simp add: take_map comp_def)
  have b: "sum_list (map ta_length (take (Suc i) ts))
      = sum_list (map length (take i ?xss)) + length (?xss ! i)"
    using sum_list_take_Suc [of i ts ta_length] assms(2) a by simp
  have "same_type (Float32Array xs) (ts ! i)" using assms by simp
  then have c: "ts ! i = Float32Array (?xss ! i)" using assms(2) by (cases "ts ! i") simp_all
  have "i < length ?xss" using assms(2) by simp
  from concat_slice [OF this] show ?thesis
    unfolding a b c [symmetric] by (simp add: c)
qed

lemma subarray_Uint16Array_concat:
  assumes "\<forall>t\<in>set ts. same_type (Uint16Array ws) t" "i < length ts"
  shows "subarray (Uint16Array (concat (map as_uint16 ts)))
           (sum_list (map ta_length (take i ts))) (sum_list (map ta_length (take (Suc i) ts)))
         = ts ! i"
proof -
  let ?wss = "map as_uint16 ts"
  have a: "sum_list (map ta_length (take i ts)) = sum_list (map length (take i ?wss))"
    by (simp add: take_map comp_def)
  have b: "sum_list (map ta_length (take (Suc i) ts))
      = sum_list (map length (take i ?wss)) + length (?wss ! i)"
    using sum_list_take_Suc [of i ts ta_length] assms(2) a by simp
  have "same_type (Uint16Array ws) (ts ! i)" using assms by simp
  then have c: "ts ! i = Uint16Array (?wss ! i)" using assms(2) by (cases "ts ! i") simp_all
  have "i < length ?wss" using assms(2) by simp
  from concat_slice [OF this] show ?thesis
    unfolding a b c [symmetric] by (simp add: c)
qed

text \<open>
  C4.  For a non-empty list of arrays of one element type, \<^verbatim>\<open>mergeTypedArrays\<close> returns
  an array of that type whose length is the sum of the lengths, in which input \<open>i\<close>
  occupies the stretch that starts at the total length of the inputs before it; for a
  single input the result equals that input.
\<close>

theorem mergeTypedArrays_concatenates:
  assumes "typedArrays \<noteq> []" and "\<forall>t\<in>set typedArrays. same_type (hd typedArrays) t"
  shows "\<exists>array. mergeTypedArrays typedArrays = Inr array
      \<and> same_type (hd typedArrays) array
      \<and> ta_length array = sum_list (map ta_length typedArrays)
      \<and> (\<forall>i<length typedArrays.
            subarray array (sum_list (map ta_length (take i typedArrays)))
              (sum_list (map ta_length (take (Suc i) typedArrays)))
            = typedArrays ! i)
      \<and> (length typedArrays = 1 \<longrightarrow> array = hd typedArrays)"
proof -
  from assms(1) obtain t ts where ts: "typedArrays = t # ts" by (cases typedArrays) auto
  show ?thesis
  proof (cases t)
    case (Uint16Array ws)
    let ?array = "Uint16Array (concat (map as_uint16 typedArrays))"
    have all: "\<forall>u\<in>set typedArrays. same_type (Uint16Array ws) u"
      using assms(2) by (simp add: ts Uint16Array)
    have 1: "mergeTypedArrays typedArrays = Inr ?array"
      by (simp add: ts mergeTypedArrays_Cons Uint16Array)
    have 2: "same_type (hd typedArrays) ?array" by (simp add: ts Uint16Array)
    have 3: "ta_length ?array = sum_list (map ta_length typedArrays)"
      by (simp add: length_concat comp_def)
    have 4: "\<forall>i<length typedArrays.
        subarray ?array (sum_list (map ta_length (take i typedArrays)))
          (sum_list (map ta_length (take (Suc i) typedArrays))) = typedArrays ! i"
      using subarray_Uint16Array_concat [OF all] by blast
    have 5: "length typedArrays = 1 \<longrightarrow> ?array = hd typedArrays"
      by (simp add: ts Uint16Array)
    from 1 2 3 4 5 show ?thesis by blast
  next
    case (Float32Array xs)
    let ?array = "Float32Array (concat (map as_float32 typedArrays))"
    have all: "\<forall>u\<in>set typedArrays. same_type (Float32Array xs) u"
      using assms(2) by (simp add: ts Float32Array)
    have 1: "mergeTypedArrays typedArrays = Inr ?array"
      by (simp add: ts mergeTypedArrays_Cons Float32Array)
    have 2: "same_type (hd typedArrays) ?array" by (simp add: ts Float32Array)
    have 3: "ta_length ?array = sum_list (map ta_length typedArrays)"
      by (simp add: length_concat comp_def)
    have 4: "\<forall>i<length typedArrays.
        subarray ?array (sum_list (map ta_length (take i typedArrays)))
          (sum_list (map ta_length (take (Suc i) typedArrays))) = typedArrays ! i"
      using subarray_Float32Array_concat [OF all] by blast
    have 5: "length typedArrays = 1 \<longrightarrow> ?array = hd typedArrays"
      by (simp add: ts Float32Array)
    from 1 2 3 4 5 show ?thesis by blast
  qed
qed

text \<open>Three buffers, one of them empty, and a single buffer.\<close>

theorem mergeTypedArrays_concatenates_witness:
  "[Float32Array [1, 2], Float32Array [], Float32Array [3]] \<noteq> []
   \<and> mergeTypedArrays [Float32Array [1, 2], Float32Array [], Float32Array [3]]
       = Inr (Float32Array [1, 2, 3])
   \<and> mergeTypedArrays [Uint16Array [4, 5]] = Inr (Uint16Array [4, 5])"
  using mergeTypedArrays_concatenates [of "[Float32Array [1, 2], Float32Array [], Float32Array [3]]"]
    mergeTypedArrays_concatenates [of "[Uint16Array [4, 5]]"]
  by (simp add: mergeTypedArrays_Cons)

text \<open>
  C8, as stated, fails: a \<^verbatim>\<open>Uint16Array\<close> followed by a \<^verbatim>\<open>Float32Array\<close> is merged
  without any error, the number \<open>5/2\<close> being stored as 2.
\<close>

theorem mergeTypedArrays_mixed_counterexample:
  "mergeTypedArrays [Uint16Array [1], Float32Array [5 / 2]] = Inr (Uint16Array [1, 2])"
  by (simp add: mergeTypedArrays_Cons ToUint16_def)

text \<open>
  C8, amended.  \<^verbatim>\<open>mergeTypedArrays\<close> never raises \<^verbatim>\<open>TypeMismatchError\<close>; on a non-empty
  list, whatever the element types, it returns an array of the first array's type that
  holds the elements of every input in order, converted to that type.
\<close>

theorem mergeTypedArrays_converts:
  "mergeTypedArrays typedArrays \<noteq> Inl TypeMismatchError
   \<and> mergeTypedArrays (t # ts) =
       Inr (case t of
              Uint16Array _ \<Rightarrow> Uint16Array (concat (map as_uint16 (t # ts)))
            | Float32Array _ \<Rightarrow> Float32Array (concat (map as_float32 (t # ts))))"
  by (cases typedArrays) (simp_all add: mergeTypedArrays_Nil mergeTypedArrays_Cons)

section \<open>Errors of the fill\<close>

text \<open>
  C7, as stated, fails: an oversized pattern raises \<^verbatim>\<open>RangeError\<close>, not
  \<^verbatim>\<open>InvalidArgumentError\<close>, and an empty pattern for an empty target raises nothing.
\<close>

theorem fill_raises_counterexample:
  "fillTypedArraySequence [0::rat] [1, 2] = Some (Inl RangeError)
   \<and> fillTypedArraySequence ([]::rat list) [] = Some (Inr [])"
  by (simp add: fillTypedArraySequence_oversized fillTypedArraySequence_empty_both)

text \<open>
  C7, amended.  The fill raises an error exactly when the pattern is longer than the
  target; the error is the \<^verbatim>\<open>RangeError\<close> of \<^verbatim>\<open>set\<close>, and no result is returned.  It
  never raises \<^verbatim>\<open>InvalidArgumentError\<close>.
\<close>

theorem fill_raises_iff_oversized:
  "(length T < length P \<longrightarrow> fillTypedArraySequence T P = Some (Inl RangeError))
   \<and> (length P \<le> length T \<longrightarrow> (\<forall>e. fillTypedArraySequence T P \<noteq> Some (Inl e)))
   \<and> fillTypedArraySequence T P \<noteq> Some (Inl InvalidArgumentError)"
proof -
  have "fillTypedArraySequence T P \<noteq> Some (Inl e)" if "length P \<le> length T" for e
    using that by (auto simp: fillTypedArraySequence_fits)
  then show ?thesis
    by (cases "length T < length P") (simp_all add: fillTypedArraySequence_oversized)
qed

text \<open>An oversized pattern, and one that fits.\<close>

theorem fill_raises_iff_oversized_witness:
  "length [0::rat] < length [1, 2::rat]
   \<and> fillTypedArraySequence [0::rat] [1, 2] = Some (Inl RangeError)
   \<and> length [1::rat] \<le> length [0, 0::rat]
   \<and> (\<forall>e. fillTypedArraySequence [0, 0::rat] [1] \<noteq> Some (Inl e))"
  using fill_raises_iff_oversized [of "[0::rat]" "[1, 2]"]
    fill_raises_iff_oversized [of "[0, 0::rat]" "[1]"]
  by simp

section \<open>buildMergedText\<close>

declare build_loop.simps [simp del]

lemma build_loop_done:
  "\<not> i < length textArray \<Longrightarrow> build_loop env font textArray offsets scales i st = Some (Inr st)"
  by (subst build_loop.simps) simp

lemma build_loop_step:
  "i < length textArray \<Longrightarrow>
   build_loop env font textArray offsets scales i st =
     and_then (build_instance env font textArray offsets scales i st)
       (\<lambda>st'. build_loop env font textArray offsets scales (Suc i) st')"
  by (subst build_loop.simps) simp

lemma and_then_Inr [simp]: "and_then (Some (Inr v)) f = f v"
  by (simp add: and_then_def)

lemma and_then_Inl [simp]: "and_then (Some (Inl e)) f = Some (Inl e)"
  by (simp add: and_then_def)

lemma and_then_None [simp]: "and_then None f = None"
  by (simp add: and_then_def)

lemma and_then_eq_Inr:
  "and_then m f = Some (Inr r) \<longleftrightarrow> (\<exists>v. m = Some (Inr v) \<and> f v = Some (Inr r))"
  by (auto simp: and_then_def split: option.splits sum.splits)

lemma and_then_eq_Inl:
  "and_then m f = Some (Inl e) \<longleftrightarrow>
     m = Some (Inl e) \<or> (\<exists>v. m = Some (Inr v) \<and> f v = Some (Inl e))"
  by (auto simp: and_then_def split: option.splits sum.splits)

lemma build_instance_eq:
  "build_instance env font textArray offsets scales i st =
     and_then (instance_fill env font textArray offsets i) (\<lambda>offsetsBuffer.
     and_then (instance_fill env font textArray scales i) (\<lambda>scalesBuffer.
       Some (Inr \<lparr>positionsArrays =
                    positionsArrays st @ [positions (instance_of env font textArray i)],
                  uvsArrays = uvsArrays st @ [uvs (instance_of env font textArray i)],
                  indicesArrays = indicesArrays st @
                    [Uint16Array (map (\<lambda>w. ToUint16 (uint16_number w + maxIndex st))
                       (indices (instance_of env font textArray i)))],
                  offsetsArrays = offsetsArrays st @ [Float32Array offsetsBuffer],
                  scalesArrays = scalesArrays st @ [Float32Array scalesBuffer],
                  maxIndex = maxIndex st + vertex_count (instance_of env font textArray i)\<rparr>)))"
  by (simp add: build_instance_def Let_def instance_fill_def instance_of_def vertex_count_def)

lemma vertices_before_Suc:
  "vertices_before env font textArray (Suc i) =
     vertices_before env font textArray i + vertex_count (instance_of env font textArray i)"
  by (simp add: vertices_before_def)

lemma vertices_before_0 [simp]: "vertices_before env font textArray 0 = 0"
  by (simp add: vertices_before_def)

lemma build_loop_returns:
  assumes "\<And>j. i \<le> j \<Longrightarrow> j < length textArray \<Longrightarrow>
             instance_fill env font textArray offsets j = Some (Inr (ob j))
           \<and> instance_fill env font textArray scales j = Some (Inr (sb j))"
    and "i \<le> length textArray"
  shows "build_loop env font textArray offsets scales i st =
    Some (Inr \<lparr>positionsArrays = positionsArrays st @
                 map (\<lambda>j. positions (instance_of env font textArray j)) [i..<length textArray],
               uvsArrays = uvsArrays st @
                 map (\<lambda>j. uvs (instance_of env font textArray j)) [i..<length textArray],
               indicesArrays = indicesArrays st @
                 map (\<lambda>j. Uint16Array (map (\<lambda>w. ToUint16 (uint16_number w +
                        (maxIndex st + (vertices_before env font textArray j
                                        - vertices_before env font textArray i))))
                      (indices (instance_of env font textArray j)))) [i..<length textArray],
               offsetsArrays = offsetsArrays st @
                 map (\<lambda>j. Float32Array (ob j)) [i..<length textArray],
               scalesArrays = scalesArrays st @
                 map (\<lambda>j. Float32Array (sb j)) [i..<length textArray],
               maxIndex = maxIndex st + (vertices_before env font textArray (length textArray)
                                         - vertices_before env font textArray i)\<rparr>)"
  using assms
proof (induction "length textArray - i" arbitrary: i st)
  case 0
  then have "i = length textArray" by simp
  then show ?case by (simp add: build_loop_done)
next
  case (Suc n)
  then have lt: "i < length textArray" by simp
  have fills: "instance_fill env font textArray offsets i = Some (Inr (ob i))"
    "instance_fill env font textArray scales i = Some (Inr (sb i))"
    using Suc.prems(1) [of i] lt by simp_all
  have up: "[i..<length textArray] = i # [Suc i..<length textArray]"
    using lt by (simp add: upt_conv_Cons)
  have IH: "build_loop env font textArray offsets scales (Suc i) st1 = Some (Inr \<lparr>positionsArrays = positionsArrays st1 @
                 map (\<lambda>j. positions (instance_of env font textArray j)) [Suc i..<length textArray],
               uvsArrays = uvsArrays st1 @
                 map (\<lambda>j. uvs (instance_of env font textArray j)) [Suc i..<length textArray],
               indicesArrays = indicesArrays st1 @
                 map (\<lambda>j. Uint16Array (map (\<lambda>w. ToUint16 (uint16_number w +
                        (maxIndex st1 + (vertices_before env font textArray j
                                        - vertices_before env font textArray (Suc i)))))
                      (indices (instance_of env font textArray j)))) [Suc i..<length textArray],
               offsetsArrays = offsetsArrays st1 @
                 map (\<lambda>j. Float32Array (ob j)) [Suc i..<length textArray],
               scalesArrays = scalesArrays st1 @
                 map (\<lambda>j. Float32Array (sb j)) [Suc i..<length textArray],
               maxIndex = maxIndex st1 + (vertices_before env font textArray (length textArray)
                                         - vertices_before env font textArray (Suc i))\<rparr>)" for st1
  proof (rule Suc.hyps(1))
    show "n = length textArray - Suc i" using Suc.hyps(2) by simp
    show "Suc i \<le> length textArray" using lt by simp
    show "instance_fill env font textArray offsets j = Some (Inr (ob j))
        \<and> instance_fill env font textArray scales j = Some (Inr (sb j))"
      if "Suc i \<le> j" "j < length textArray" for j
      using Suc.prems(1) [of j] that by simp
  qed
  show ?case
    by (simp add: build_loop_step [OF lt] build_instance_eq fills IH up vertices_before_Suc
        algebra_simps)
qed

lemma mergeTypedArrays_concat_typed:
  "ts \<noteq> [] \<Longrightarrow> mergeTypedArrays ts = Inr (concat_typed ts)"
  by (cases ts) (simp_all add: mergeTypedArrays_Cons concat_typed_def)

lemma concat_typed_Uint16Arrays:
  "wss \<noteq> [] \<Longrightarrow> concat_typed (map Uint16Array wss) = Uint16Array (concat wss)"
  using mergeTypedArrays_Uint16Arrays [of wss] mergeTypedArrays_concat_typed [of "map Uint16Array wss"]
  by simp

lemma concat_typed_Float32Arrays:
  "xss \<noteq> [] \<Longrightarrow> concat_typed (map Float32Array xss) = Float32Array (concat xss)"
  using mergeTypedArrays_Float32Arrays [of xss] mergeTypedArrays_concat_typed [of "map Float32Array xss"]
  by simp

lemma concat_typed_Uint16Array_comp:
  "xs \<noteq> [] \<Longrightarrow> concat_typed (map (Uint16Array \<circ> f) xs) = Uint16Array (concat (map f xs))"
  using concat_typed_Uint16Arrays [of "map f xs"] by simp

lemma concat_typed_Float32Array_comp:
  "xs \<noteq> [] \<Longrightarrow> concat_typed (map (Float32Array \<circ> f) xs) = Float32Array (concat (map f xs))"
  using concat_typed_Float32Arrays [of "map f xs"] by simp

lemma build_loop_fills:
  assumes "build_loop env font textArray offsets scales i st = Some (Inr st')"
    and "i \<le> j" "j < length textArray"
  shows "(\<exists>ob. instance_fill env font textArray offsets j = Some (Inr ob))
       \<and> (\<exists>sb. instance_fill env font textArray scales j = Some (Inr sb))"
  using assms
proof (induction "length textArray - i" arbitrary: i st)
  case 0
  then show ?case by simp
next
  case (Suc n)
  then have lt: "i < length textArray" by simp
  from Suc.prems(1) obtain st1 where
    st1: "build_instance env font textArray offsets scales i st = Some (Inr st1)"
    and rest: "build_loop env font textArray offsets scales (Suc i) st1 = Some (Inr st')"
    by (auto simp: build_loop_step [OF lt] and_then_eq_Inr)
  show ?case
  proof (cases "j = i")
    case True
    from st1 show ?thesis
      unfolding True build_instance_eq and_then_eq_Inr by blast
  next
    case False
    with Suc.prems have "Suc i \<le> j" by simp
    moreover have "n = length textArray - Suc i" using Suc.hyps(2) by simp
    ultimately show ?thesis using Suc.hyps(1) rest Suc.prems(3) by blast
  qed
qed

lemma buildMergedText_returns:
  assumes "textArray \<noteq> []"
    and "\<And>j. j < length textArray \<Longrightarrow>
             instance_fill env font textArray offsets j = Some (Inr (ob j))
           \<and> instance_fill env font textArray scales j = Some (Inr (sb j))"
  shows "buildMergedText env font textArray offsets scales =
    Some (Inr \<lparr>mergedPositions = concat_typed
                 (map (\<lambda>j. positions (instance_of env font textArray j)) [0..<length textArray]),
               mergedUvs = concat_typed
                 (map (\<lambda>j. uvs (instance_of env font textArray j)) [0..<length textArray]),
               mergedIndices = Uint16Array (concat
                 (map (\<lambda>j. shifted_indices (vertices_before env font textArray j)
                              (instance_of env font textArray j)) [0..<length textArray])),
               mergedOffsets = Float32Array (concat (map ob [0..<length textArray])),
               mergedScales = Float32Array (concat (map sb [0..<length textArray]))\<rparr>)"
proof -
  have ne: "[0..<length textArray] \<noteq> []" using assms(1) by simp
  have loop: "build_loop env font textArray offsets scales 0
      \<lparr>positionsArrays = [], uvsArrays = [], indicesArrays = [], offsetsArrays = [],
       scalesArrays = [], maxIndex = 0\<rparr> = Some (Inr \<lparr>positionsArrays =
                 map (\<lambda>j. positions (instance_of env font textArray j)) [0..<length textArray],
               uvsArrays =
                 map (\<lambda>j. uvs (instance_of env font textArray j)) [0..<length textArray],
               indicesArrays =
                 map Uint16Array (map (\<lambda>j. shifted_indices (vertices_before env font textArray j)
                              (instance_of env font textArray j)) [0..<length textArray]),
               offsetsArrays = map Float32Array (map ob [0..<length textArray]),
               scalesArrays = map Float32Array (map sb [0..<length textArray]),
               maxIndex = vertices_before env font textArray (length textArray)\<rparr>)"
    using build_loop_returns [of 0 textArray env font offsets ob scales sb] assms(2)
    by (simp add: shifted_indices_def comp_def)
  show ?thesis
    unfolding buildMergedText_def loop
    using ne
    by (simp add: mergeTypedArrays_concat_typed concat_typed_Uint16Array_comp
        concat_typed_Float32Array_comp)
qed

lemma buildMergedText_Inr:
  assumes "buildMergedText env font textArray offsets scales = Some (Inr r)"
  shows "textArray \<noteq> []"
    and "mergedIndices r = Uint16Array (concat
                 (map (\<lambda>j. shifted_indices (vertices_before env font textArray j)
                              (instance_of env font textArray j)) [0..<length textArray]))"
    and "\<And>j. j < length textArray \<Longrightarrow>
           (\<exists>ob. instance_fill env font textArray offsets j = Some (Inr ob))
         \<and> (\<exists>sb. instance_fill env font textArray scales j = Some (Inr sb))"
proof -
  from assms obtain st where
    loop: "build_loop env font textArray offsets scales 0
      \<lparr>positionsArrays = [], uvsArrays = [], indicesArrays = [], offsetsArrays = [],
       scalesArrays = [], maxIndex = 0\<rparr> = Some (Inr st)"
    unfolding buildMergedText_def and_then_eq_Inr by blast
  show fills: "(\<exists>ob. instance_fill env font textArray offsets j = Some (Inr ob))
         \<and> (\<exists>sb. instance_fill env font textArray scales j = Some (Inr sb))"
    if "j < length textArray" for j
    using build_loop_fills [OF loop _ that] by simp
  then obtain ob sb where obsb: "\<And>j. j < length textArray \<Longrightarrow>
             instance_fill env font textArray offsets j = Some (Inr (ob j))
           \<and> instance_fill env font textArray scales j = Some (Inr (sb j))"
    by metis
  show ne: "textArray \<noteq> []"
  proof
    assume "textArray = []"
    then have "buildMergedText env font textArray offsets scales = Some (Inl TypeError)"
      by (simp add: buildMergedText_def build_loop_done mergeTypedArrays_Nil)
    with assms show False by simp
  qed
  from buildMergedText_returns [OF ne obsb] assms
  show "mergedIndices r = Uint16Array (concat
                 (map (\<lambda>j. shifted_indices (vertices_before env font textArray j)
                              (instance_of env font textArray j)) [0..<length textArray]))"
    by auto
qed

lemma vertex_count_even:
  "even (ta_length (positions a)) \<Longrightarrow> vertex_count a = of_nat (vertices a)"
  by (auto simp: vertex_count_def vertices_def elim!: evenE)

lemma vertices_before_whole:
  "\<forall>j<i. even (ta_length (positions (instance_of env font textArray j))) \<Longrightarrow>
   vertices_before env font textArray i = of_nat (whole_vertices_before env font textArray i)"
proof (induction i)
  case 0
  then show ?case by (simp add: whole_vertices_before_def)
next
  case (Suc i)
  then show ?case
    by (simp add: vertices_before_Suc whole_vertices_before_def vertex_count_even)
qed

lemma shifted_indices_whole:
  "shifted_indices (of_nat m) a = map (\<lambda>k. k + of_nat m) (indices a)"
  by (simp add: shifted_indices_def ToUint16_shift)

lemma unat_shift: "unat (k + of_nat m :: 16 word) = (unat k + m) mod 65536"
  by (simp add: unat_word_ariths unat_of_nat mod_add_right_eq)

lemma merged_indices_whole:
  assumes "buildMergedText env font textArray offsets scales = Some (Inr r)"
    and "\<forall>j<length textArray. even (ta_length (positions (instance_of env font textArray j)))"
  shows "mergedIndices r = Uint16Array (concat (map
           (\<lambda>i. map (\<lambda>k. k + of_nat (whole_vertices_before env font textArray i))
                  (indices (instance_of env font textArray i)))
           [0..<length textArray]))"
proof -
  have "shifted_indices (vertices_before env font textArray i) (instance_of env font textArray i)
      = map (\<lambda>k. k + of_nat (whole_vertices_before env font textArray i))
          (indices (instance_of env font textArray i))"
    if "i < length textArray" for i
  proof -
    have "\<forall>j<i. even (ta_length (positions (instance_of env font textArray j)))"
      using assms(2) that by simp
    then show ?thesis by (simp add: vertices_before_whole shifted_indices_whole)
  qed
  then have eq: "map (\<lambda>i. shifted_indices (vertices_before env font textArray i)
                 (instance_of env font textArray i)) [0..<length textArray]
      = map (\<lambda>i. map (\<lambda>k. k + of_nat (whole_vertices_before env font textArray i))
                  (indices (instance_of env font textArray i))) [0..<length textArray]"
    by (intro map_cong [OF refl]) simp
  show ?thesis unfolding buildMergedText_Inr(2) [OF assms(1)] eq by (rule refl)
qed

lemma example_env_even:
  "even (ta_length (positions (instance_of example_env font textArray j)))"
  by (simp add: instance_of_def createTextAttributes_def example_env_def Let_def)

lemma instance_fill_cyclic:
  assumes "j < length xs" "xs ! j \<noteq> []"
    and "length (xs ! j) \<le> ta_length (positions (instance_of env font textArray j))"
    and "ta_length (positions (instance_of env font textArray j)) \<le> 2 ^ 31"
  shows "instance_fill env font textArray xs j =
    Some (Inr (cyclic (map (fround env) (xs ! j))
                 (ta_length (positions (instance_of env font textArray j)))))"
proof -
  have "fillTypedArraySequence
      (replicate (ta_length (positions (instance_of env font textArray j))) (0::rat))
      (map (fround env) (xs ! j)) =
    Some (Inr (cyclic (map (fround env) (xs ! j))
      (length (replicate (ta_length (positions (instance_of env font textArray j))) (0::rat)))))"
    using assms by (intro fillTypedArraySequence_cyclic) simp_all
  then show ?thesis using assms(1) by (simp add: instance_fill_def float32_of_entry_def)
qed

lemma buildMergedText_returns_cyclic:
  assumes "textArray \<noteq> []"
    and "\<And>j. j < length textArray \<Longrightarrow>
          j < length offsets \<and> offsets ! j \<noteq> []
          \<and> length (offsets ! j) \<le> ta_length (positions (instance_of env font textArray j))
          \<and> j < length scales \<and> scales ! j \<noteq> []
          \<and> length (scales ! j) \<le> ta_length (positions (instance_of env font textArray j))
          \<and> ta_length (positions (instance_of env font textArray j)) \<le> 2 ^ 31"
  shows "buildMergedText env font textArray offsets scales =
    Some (Inr \<lparr>mergedPositions = concat_typed
                 (map (\<lambda>j. positions (instance_of env font textArray j)) [0..<length textArray]),
               mergedUvs = concat_typed
                 (map (\<lambda>j. uvs (instance_of env font textArray j)) [0..<length textArray]),
               mergedIndices = Uint16Array (concat
                 (map (\<lambda>j. shifted_indices (vertices_before env font textArray j)
                              (instance_of env font textArray j)) [0..<length textArray])),
               mergedOffsets = Float32Array (concat (map
                 (\<lambda>j. cyclic (map (fround env) (offsets ! j))
                        (ta_length (positions (instance_of env font textArray j))))
                 [0..<length textArray])),
               mergedScales = Float32Array (concat (map
                 (\<lambda>j. cyclic (map (fround env) (scales ! j))
                        (ta_length (positions (instance_of env font textArray j))))
                 [0..<length textArray]))\<rparr>)"
proof (rule buildMergedText_returns [OF assms(1)])
  fix j assume "j < length textArray"
  from assms(2) [OF this]
  show "instance_fill env font textArray offsets j =
      Some (Inr (cyclic (map (fround env) (offsets ! j))
                   (ta_length (positions (instance_of env font textArray j)))))
    \<and> instance_fill env font textArray scales j =
      Some (Inr (cyclic (map (fround env) (scales ! j))
                   (ta_length (positions (instance_of env font textArray j)))))"
    by (simp add: instance_fill_cyclic)
qed

lemma example_env_instance:
  "instance_of example_env font textArray j =
     \<lparr>positions = Float32Array (replicate (2 * length (textArray ! j)) 0),
      uvs = Float32Array (replicate (2 * length (textArray ! j)) 0),
      indices = map (\<lambda>n. ToUint16 (of_nat n)) [0..<length (textArray ! j)]\<rparr>"
  by (simp add: instance_of_def createTextAttributes_def example_env_def Let_def comp_def)

section \<open>The merged index buffer\<close>

text \<open>
  C2, as stated, fails: after an instance of 65536 vertices the local index 0 of the next
  instance is stored as 0, not as 65536.
\<close>

theorem merged_indices_wrap_counterexample:
  "map_option (map_sum id (\<lambda>r. last (as_uint16 (mergedIndices r))))
     (buildMergedText example_env () [replicate 65536 CHR ''a'', ''a'']
        [[0, 0], [0, 0]] [[1, 1], [1, 1]])
   = Some (Inr 0)"
proof -
  define textArray where "textArray = [replicate 65536 CHR ''a'', ''a'']"
  define offsets :: "rat list list" where "offsets = [[0, 0], [0, 0]]"
  define scales :: "rat list list" where "scales = [[1, 1], [1, 1]]"
  have len: "length textArray = 2" by (simp add: textArray_def)
  have L: "ta_length (positions (instance_of example_env () textArray j))
      = (if j = 0 then 131072 else 2)" if "j < 2" for j
    using that by (cases j) (simp_all add: example_env_instance textArray_def)
  have pre: "j < length offsets \<and> offsets ! j \<noteq> []
          \<and> length (offsets ! j) \<le> ta_length (positions (instance_of example_env () textArray j))
          \<and> j < length scales \<and> scales ! j \<noteq> []
          \<and> length (scales ! j) \<le> ta_length (positions (instance_of example_env () textArray j))
          \<and> ta_length (positions (instance_of example_env () textArray j)) \<le> 2 ^ 31"
    if "j < length textArray" for j
  proof -
    from that have j: "j < 2" by (simp add: len)
    then have "j = 0 \<or> j = 1" by auto
    then show ?thesis using L [OF j] by (auto simp: offsets_def scales_def)
  qed
  have ne: "textArray \<noteq> []" by (simp add: textArray_def)
  have up: "[0..<length textArray] = [0, Suc 0]" by (simp add: len upt_rec)
  have vb: "vertices_before example_env () textArray (Suc 0) = 65536"
    using L [of 0] by (simp add: vertices_before_def vertex_count_def)
  have s1: "shifted_indices (vertices_before example_env () textArray (Suc 0))
      (instance_of example_env () textArray (Suc 0)) = [0]"
    unfolding vb
    by (simp add: shifted_indices_def example_env_instance textArray_def ToUint16_def
        uint16_number_def)
  have "last (as_uint16 (Uint16Array (concat
          (map (\<lambda>j. shifted_indices (vertices_before example_env () textArray j)
                  (instance_of example_env () textArray j)) [0..<length textArray])))) = 0"
    unfolding up by (simp add: s1)
  then show ?thesis
    unfolding textArray_def [symmetric] offsets_def [symmetric] scales_def [symmetric]
    by (simp add: buildMergedText_returns_cyclic [OF ne pre])
qed

text \<open>
  C2, amended.  When the merge returns and every positions buffer holds whole vertices,
  the merged index buffer is the concatenation, in instance order, of each instance's
  own index buffer with the number of vertices of the instances before it added to every
  element in 16-bit arithmetic; the stored value is the local index plus that number
  whenever this sum is below 65536.
\<close>

theorem merged_indices_shifted:
  assumes "buildMergedText env font textArray offsets scales = Some (Inr r)"
    and "\<forall>j<length textArray. even (ta_length (positions (instance_of env font textArray j)))"
  shows "mergedIndices r = Uint16Array (concat (map
           (\<lambda>i. map (\<lambda>k. k + of_nat (whole_vertices_before env font textArray i))
                  (indices (instance_of env font textArray i)))
           [0..<length textArray]))
    \<and> (\<forall>i<length textArray. \<forall>k\<in>set (indices (instance_of env font textArray i)).
          unat k + whole_vertices_before env font textArray i < 65536 \<longrightarrow>
          unat (k + of_nat (whole_vertices_before env font textArray i))
            = unat k + whole_vertices_before env font textArray i)"
  using merged_indices_whole [OF assms] by (simp add: unat_shift)

text \<open>
  Two instances of 4 and 6 vertices with local indices 0..3 and 0..5: the second
  instance's local index \<open>k\<close> is stored as \<open>k + 4\<close>.
\<close>

theorem merged_indices_shifted_witness:
  "buildMergedText example_env () [''abcd'', ''abcdef''] [[10, 20], [1, 2]] [[2, 2], [3, 3]]
     = Some (Inr \<lparr>mergedPositions = Float32Array (replicate 20 0),
                  mergedUvs = Float32Array (replicate 20 0),
                  mergedIndices = Uint16Array [0, 1, 2, 3, 4, 5, 6, 7, 8, 9],
                  mergedOffsets = Float32Array
                    [10, 20, 10, 20, 10, 20, 10, 20, 1, 2, 1, 2, 1, 2, 1, 2, 1, 2, 1, 2],
                  mergedScales = Float32Array
                    [2, 2, 2, 2, 2, 2, 2, 2, 3, 3, 3, 3, 3, 3, 3, 3, 3, 3, 3, 3]\<rparr>)
   \<and> whole_vertices_before example_env () [''abcd'', ''abcdef''] 1 = 4
   \<and> indices (instance_of example_env () [''abcd'', ''abcdef''] 1) = [0, 1, 2, 3, 4, 5]
   \<and> map (\<lambda>k. k + of_nat (whole_vertices_before example_env () [''abcd'', ''abcdef''] 1))
        (indices (instance_of example_env () [''abcd'', ''abcdef''] 1)) = [4, 5, 6, 7, 8, 9]"
proof -
  have run: "buildMergedText example_env () [''abcd'', ''abcdef''] [[10, 20], [1, 2]] [[2, 2], [3, 3]]
     = Some (Inr \<lparr>mergedPositions = Float32Array (replicate 20 0),
                  mergedUvs = Float32Array (replicate 20 0),
                  mergedIndices = Uint16Array [0, 1, 2, 3, 4, 5, 6, 7, 8, 9],
                  mergedOffsets = Float32Array
                    [10, 20, 10, 20, 10, 20, 10, 20, 1, 2, 1, 2, 1, 2, 1, 2, 1, 2, 1, 2],
                  mergedScales = Float32Array
                    [2, 2, 2, 2, 2, 2, 2, 2, 3, 3, 3, 3, 3, 3, 3, 3, 3, 3, 3, 3]\<rparr>)"
    by code_simp
  have even: "\<forall>j<length [''abcd'', ''abcdef''].
         even (ta_length (positions (instance_of example_env () [''abcd'', ''abcdef''] j)))"
    by (simp add: example_env_even)
  have w: "whole_vertices_before example_env () [''abcd'', ''abcdef''] 1 = 4"
    by code_simp
  have i: "indices (instance_of example_env () [''abcd'', ''abcdef''] 1) = [0, 1, 2, 3, 4, 5]"
    by code_simp
  from merged_indices_shifted [OF run even] run w i show ?thesis by simp
qed

lemma whole_vertices_before_Suc:
  "whole_vertices_before env font textArray (Suc i) =
     whole_vertices_before env font textArray i + vertices (instance_of env font textArray i)"
  by (simp add: whole_vertices_before_def)

lemma whole_vertices_before_mono:
  "i \<le> j \<Longrightarrow> whole_vertices_before env font textArray i \<le> whole_vertices_before env font textArray j"
  by (induction j) (auto simp: whole_vertices_before_Suc le_Suc_eq)



text \<open>
  C3, as stated, fails at \<open>N = 0\<close>: the merge of no instances throws a \<^verbatim>\<open>TypeError\<close>
  and returns no index buffer.
\<close>

theorem merged_index_maximum_counterexample:
  "buildMergedText example_env () [] [] [] = Some (Inl TypeError)"
  by (simp add: buildMergedText_def build_loop_done mergeTypedArrays_Nil)

text \<open>
  C3, amended.  When the merge returns (so \<open>N \<ge> 1\<close>), every positions buffer holds
  whole vertices, every local index is below its instance's vertex count, the last
  instance refers to its last vertex, and there are at most 65536 vertices in all, the
  maximum of the merged index buffer is the total vertex count minus 1.  Every index is
  \<open>\<ge> 0\<close>.  For \<open>N = 0\<close> the merge throws a \<^verbatim>\<open>TypeError\<close>.
\<close>

theorem merged_index_maximum:
  assumes "buildMergedText env font textArray offsets scales = Some (Inr r)"
    and "\<forall>j<length textArray. even (ta_length (positions (instance_of env font textArray j)))"
    and "\<forall>j<length textArray. \<forall>k\<in>set (indices (instance_of env font textArray j)).
           unat k < vertices (instance_of env font textArray j)"
    and "\<exists>k\<in>set (indices (instance_of env font textArray (length textArray - 1))).
           Suc (unat k) = vertices (instance_of env font textArray (length textArray - 1))"
    and "whole_vertices_before env font textArray (length textArray) \<le> 65536"
  shows "Max (unat ` set (as_uint16 (mergedIndices r)))
           = whole_vertices_before env font textArray (length textArray) - 1
    \<and> (\<forall>k\<in>set (as_uint16 (mergedIndices r)). 0 \<le> uint k)
    \<and> buildMergedText env font [] offsets scales = Some (Inl TypeError)"
proof -
  let ?N = "length textArray"
  let ?W = "whole_vertices_before env font textArray"
  let ?I = "\<lambda>i. instance_of env font textArray i"
  have ne: "textArray \<noteq> []" by (rule buildMergedText_Inr(1) [OF assms(1)])
  then have N: "0 < ?N" by simp
  have set_eq: "set (as_uint16 (mergedIndices r))
      = (\<Union>i\<in>{0..<?N}. (\<lambda>k. k + of_nat (?W i)) ` set (indices (?I i)))"
    by (simp add: merged_indices_whole [OF assms(1,2)])
  have exact: "unat (k + of_nat (?W i) :: 16 word) = unat k + ?W i"
    and bound: "unat k + ?W i < ?W ?N"
    if "i < ?N" "k \<in> set (indices (?I i))" for i k
  proof -
    have "unat k < vertices (?I i)" using assms(3) that by blast
    then have "unat k + ?W i < ?W (Suc i)" by (simp add: whole_vertices_before_Suc)
    also have "\<dots> \<le> ?W ?N" using that(1) by (intro whole_vertices_before_mono) simp
    finally show b: "unat k + ?W i < ?W ?N" .
    with assms(5) have "unat k + ?W i < 65536" by simp
    then show "unat (k + of_nat (?W i) :: 16 word) = unat k + ?W i"
      by (simp add: unat_shift)
  qed
  from assms(4) obtain k where k: "k \<in> set (indices (?I (?N - 1)))"
    "Suc (unat k) = vertices (?I (?N - 1))" by blast
  have last: "?W ?N = ?W (?N - 1) + vertices (?I (?N - 1))"
    using whole_vertices_before_Suc [of env font textArray "?N - 1"] N by simp
  have top: "unat (k + of_nat (?W (?N - 1)) :: 16 word) = ?W ?N - 1"
    using exact [of "?N - 1" k] k N by (simp add: last)
  have mem: "?W ?N - 1 \<in> unat ` set (as_uint16 (mergedIndices r))"
  proof -
    have "k + of_nat (?W (?N - 1)) \<in> set (as_uint16 (mergedIndices r))"
      unfolding set_eq using k(1) N by auto
    then show ?thesis using top by (metis imageI)
  qed
  have le: "y \<le> ?W ?N - 1" if "y \<in> unat ` set (as_uint16 (mergedIndices r))" for y
  proof -
    from that obtain i k' where ik: "i < ?N" "k' \<in> set (indices (?I i))"
      "y = unat (k' + of_nat (?W i) :: 16 word)"
      unfolding set_eq by auto
    from exact [OF ik(1,2)] bound [OF ik(1,2)] ik(3) show ?thesis by simp
  qed
  have "Max (unat ` set (as_uint16 (mergedIndices r))) = ?W ?N - 1"
    by (rule Max_eqI) (use mem le in simp_all)
  moreover have "buildMergedText env font [] offsets scales = Some (Inl TypeError)"
    by (simp add: buildMergedText_def build_loop_done mergeTypedArrays_Nil)
  ultimately show ?thesis by simp
qed

text \<open>Two instances of 4 and 6 vertices: the maximum is 9.\<close>

theorem merged_index_maximum_witness:
  "buildMergedText example_env () [''abcd'', ''abcdef''] [[0, 0], [0, 0]] [[1, 1], [1, 1]]
     = Some (Inr \<lparr>mergedPositions = Float32Array (replicate 20 0),
                  mergedUvs = Float32Array (replicate 20 0),
                  mergedIndices = Uint16Array [0, 1, 2, 3, 4, 5, 6, 7, 8, 9],
                  mergedOffsets = Float32Array (replicate 20 0),
                  mergedScales = Float32Array (replicate 20 1)\<rparr>)
   \<and> (\<exists>k\<in>set (indices (instance_of example_env () [''abcd'', ''abcdef'']
                (length [''abcd'', ''abcdef''] - 1))).
         Suc (unat k) = vertices (instance_of example_env () [''abcd'', ''abcdef'']
                (length [''abcd'', ''abcdef''] - 1)))
   \<and> whole_vertices_before example_env () [''abcd'', ''abcdef''] (length [''abcd'', ''abcdef''])
       = 10
   \<and> Max (unat ` set [0, 1, 2, 3, 4, 5, 6, 7, 8, 9 :: 16 word]) = 9"
proof -
  let ?ta = "[''abcd'', ''abcdef'']"
  have run: "buildMergedText example_env () ?ta [[0, 0], [0, 0]] [[1, 1], [1, 1]]
     = Some (Inr \<lparr>mergedPositions = Float32Array (replicate 20 0),
                  mergedUvs = Float32Array (replicate 20 0),
                  mergedIndices = Uint16Array [0, 1, 2, 3, 4, 5, 6, 7, 8, 9],
                  mergedOffsets = Float32Array (replicate 20 0),
                  mergedScales = Float32Array (replicate 20 1)\<rparr>)"
    by code_simp
  have even: "\<forall>j<length ?ta. even (ta_length (positions (instance_of example_env () ?ta j)))"
    by (simp add: example_env_even)
  have i0: "indices (instance_of example_env () ?ta 0) = [0, 1, 2, 3]"
    and i1: "indices (instance_of example_env () ?ta (Suc 0)) = [0, 1, 2, 3, 4, 5]"
    and v0: "vertices (instance_of example_env () ?ta 0) = 4"
    and v1: "vertices (instance_of example_env () ?ta (Suc 0)) = 6"
    by code_simp+
  have below: "\<forall>j<length ?ta. \<forall>k\<in>set (indices (instance_of example_env () ?ta j)).
           unat k < vertices (instance_of example_env () ?ta j)"
    by (simp add: less_Suc_eq i0 i1 v0 v1 all_conj_distrib)
  have top: "\<exists>k\<in>set (indices (instance_of example_env () ?ta (length ?ta - 1))).
         Suc (unat k) = vertices (instance_of example_env () ?ta (length ?ta - 1))"
    by (simp add: i1 v1)
  have total: "whole_vertices_before example_env () ?ta (length ?ta) = 10"
    by (simp add: whole_vertices_before_def v0 v1 upt_rec)
  have fits: "whole_vertices_before example_env () ?ta (length ?ta) \<le> 65536"
    unfolding total by simp
  from merged_index_maximum [OF run even below top fits] run top total
  show ?thesis by simp
qed

section \<open>The offsets and scales of an instance\<close>








section \<open>Sequences of different lengths\<close>

lemma fillTypedArraySequence_error:
  "fillTypedArraySequence T P = Some (Inl e) \<Longrightarrow> e = RangeError"
  by (cases "length T < length P")
    (auto simp: fillTypedArraySequence_oversized fillTypedArraySequence_fits)

lemma build_instance_error:
  "build_instance env font textArray offsets scales i st = Some (Inl e) \<Longrightarrow> e = RangeError"
  unfolding build_instance_eq and_then_eq_Inl instance_fill_def
  by (auto dest: fillTypedArraySequence_error)

lemma build_loop_error:
  "build_loop env font textArray offsets scales i st = Some (Inl e) \<Longrightarrow> e = RangeError"
proof (induction "length textArray - i" arbitrary: i st)
  case 0
  then show ?case by (simp add: build_loop_done)
next
  case (Suc n)
  then have lt: "i < length textArray" by simp
  from Suc.prems consider
    "build_instance env font textArray offsets scales i st = Some (Inl e)"
    | st1 where "build_loop env font textArray offsets scales (Suc i) st1 = Some (Inl e)"
    by (auto simp: build_loop_step [OF lt] and_then_eq_Inl)
  then show ?case
  proof cases
    case 1
    then show ?thesis by (rule build_instance_error)
  next
    case 2
    moreover have "n = length textArray - Suc i" using Suc.hyps(2) by simp
    ultimately show ?thesis using Suc.hyps(1) by blast
  qed
qed

lemma mergeTypedArrays_error: "mergeTypedArrays ts = Inl e \<Longrightarrow> e = TypeError"
  by (cases ts) (simp_all add: mergeTypedArrays_Nil mergeTypedArrays_Cons)

lemma buildMergedText_error:
  assumes "buildMergedText env font textArray offsets scales = Some (Inl e)"
  shows "e = RangeError \<or> e = TypeError"
  using assms unfolding buildMergedText_def and_then_eq_Inl
  by (auto dest: build_loop_error mergeTypedArrays_error)

lemma float32_of_entry_take:
  "j < n \<Longrightarrow> float32_of_entry fr (take n xs) j = float32_of_entry fr xs j"
  by (simp add: float32_of_entry_def)

lemma instance_fill_take:
  "j < n \<Longrightarrow> instance_fill env font textArray (take n xs) j = instance_fill env font textArray xs j"
  by (simp add: instance_fill_def float32_of_entry_take)

lemma build_loop_take:
  "build_loop env font textArray (take (length textArray) offsets)
     (take (length textArray) scales) i st
   = build_loop env font textArray offsets scales i st"
proof (induction "length textArray - i" arbitrary: i st)
  case 0
  then show ?case by (simp add: build_loop_done)
next
  case (Suc n)
  then have lt: "i < length textArray" by simp
  have n: "n = length textArray - Suc i" using Suc.hyps(2) by simp
  show ?case
    by (simp add: build_loop_step [OF lt] build_instance_eq instance_fill_take [OF lt]
        Suc.hyps(1) [OF n])
qed

lemma instance_fill_missing:
  assumes "length xs \<le> j" "0 < ta_length (positions (instance_of env font textArray j))"
  shows "instance_fill env font textArray xs j = None"
  using assms by (simp add: instance_fill_def float32_of_entry_def fillTypedArraySequence_empty_pattern)

text \<open>
  C6, as stated, fails: with one string, two offsets and one scale the merge returns a
  result and raises nothing.
\<close>

theorem mismatched_lengths_counterexample:
  "buildMergedText example_env () [''abc''] [[10, 20], [1, 2]] [[2, 2]] =
     Some (Inr \<lparr>mergedPositions = Float32Array [0, 0, 0, 0, 0, 0],
                mergedUvs = Float32Array [0, 0, 0, 0, 0, 0],
                mergedIndices = Uint16Array [0, 1, 2],
                mergedOffsets = Float32Array [10, 20, 10, 20, 10, 20],
                mergedScales = Float32Array [2, 2, 2, 2, 2, 2]\<rparr>)"
  by code_simp

text \<open>
  C6, amended.  The merge never raises \<^verbatim>\<open>InvalidArgumentError\<close>.  Entries of
  \<open>offsets\<close> and \<open>scales\<close> past the number of strings are ignored.  When \<open>offsets\<close> or
  \<open>scales\<close> has fewer entries than there are strings, and every instance has at least
  one position component, no result is returned.
\<close>

theorem mismatched_lengths:
  "buildMergedText env font textArray offsets scales \<noteq> Some (Inl InvalidArgumentError)
   \<and> buildMergedText env font textArray (take (length textArray) offsets)
        (take (length textArray) scales)
       = buildMergedText env font textArray offsets scales
   \<and> ((length offsets < length textArray \<or> length scales < length textArray)
        \<and> (\<forall>j<length textArray. 0 < ta_length (positions (instance_of env font textArray j)))
      \<longrightarrow> (\<forall>r. buildMergedText env font textArray offsets scales \<noteq> Some (Inr r)))"
proof -
  have 1: "buildMergedText env font textArray offsets scales \<noteq> Some (Inl InvalidArgumentError)"
    using buildMergedText_error [of env font textArray offsets scales InvalidArgumentError]
    by auto
  have 2: "buildMergedText env font textArray (take (length textArray) offsets)
        (take (length textArray) scales)
       = buildMergedText env font textArray offsets scales"
    by (simp add: buildMergedText_def build_loop_take)
  have 3: "buildMergedText env font textArray offsets scales \<noteq> Some (Inr r)"
    if short: "length offsets < length textArray \<or> length scales < length textArray"
      and pos: "\<forall>j<length textArray. 0 < ta_length (positions (instance_of env font textArray j))"
    for r
  proof
    assume ret: "buildMergedText env font textArray offsets scales = Some (Inr r)"
    from short show False
    proof
      assume lt: "length offsets < length textArray"
      with pos have "instance_fill env font textArray offsets (length offsets) = None"
        by (intro instance_fill_missing) simp_all
      with buildMergedText_Inr(3) [OF ret lt] show False by simp
    next
      assume lt: "length scales < length textArray"
      with pos have "instance_fill env font textArray scales (length scales) = None"
        by (intro instance_fill_missing) simp_all
      with buildMergedText_Inr(3) [OF ret lt] show False by simp
    qed
  qed
  from 1 2 3 show ?thesis by blast
qed

text \<open>One string and no offset.\<close>

theorem mismatched_lengths_witness:
  "(length ([] :: rat list list) < length [''abc''] \<or> length [[2, 2 :: rat]] < length [''abc''])
   \<and> (\<forall>r. buildMergedText example_env () [''abc''] [] [[2, 2]] \<noteq> Some (Inr r))
   \<and> buildMergedText example_env () [''abc''] [] [[2, 2]] \<noteq> Some (Inl InvalidArgumentError)"
  using mismatched_lengths [of example_env "()" "[''abc'']" "[]" "[[2, 2]]"]
  by (simp add: example_env_instance)

end
